theory Spec2Isabelle
  imports Main "HOL-Library.Word"
begin

unbundle bit_operations_syntax

section \<open>The chunked weight-encryption relay\<close>

text \<open>
  A shallow embedding of the relay of \<^verbatim>\<open>Weights_encryption\<close>: the framing layer
  (\<^verbatim>\<open>pb_to_uart.c\<close>), the dispatcher and the encryption pipeline (\<^verbatim>\<open>client.c\<close>) and the
  cipher invocation (\<^verbatim>\<open>encrypt.c\<close>). The C globals become the fields of one record
  \<open>state\<close>; every function of the source becomes a function on that record. An
  \<^verbatim>\<open>assert\<close> that fails ends the program: functions that contain one return
  \<open>error + state\<close>. So does a DMA reception longer than the receive buffer: what the
  program does once bytes have been written past the end of the array is not defined.
\<close>

type_synonym u8 = "8 word"
type_synonym u16 = "16 word"
type_synonym u32 = "32 word"
type_synonym u64 = "64 word"

subsection \<open>pb\_to\_uart.h\<close>

definition MULTIPLE_TT :: "nat \<Rightarrow> nat" where
  "MULTIPLE_TT a = ((a div 32) + 1) * 32"

definition O_STREAM_SIZE_BYTES :: nat where
  "O_STREAM_SIZE_BYTES = MULTIPLE_TT 4111"

definition I_STREAM_SIZE_BYTES :: nat where
  "I_STREAM_SIZE_BYTES = MULTIPLE_TT 4111"

subsection \<open>The messages\<close>

text \<open>
  \<^verbatim>\<open>message.pb.h\<close> (generated by nanopb) is not among the sources. The message types are
  taken from the way \<^verbatim>\<open>client.c\<close> uses them: \<^verbatim>\<open>MyMessage\<close> has a selector
  \<^verbatim>\<open>which_payload\<close> and a union \<^verbatim>\<open>payload\<close> whose members \<^verbatim>\<open>EncryptionParams\<close>
  (\<^verbatim>\<open>nb_rounds\<close>; the keys go through a callback) and \<^verbatim>\<open>RawData\<close> (\<^verbatim>\<open>stat\<close>,
  \<^verbatim>\<open>chunk_no\<close>, \<^verbatim>\<open>base_address\<close>, \<^verbatim>\<open>data.size\<close>, \<^verbatim>\<open>data.bytes\<close>) the code reads
  through casts of \<^verbatim>\<open>&msg.payload\<close>, whatever the selector says. The record keeps the
  members side by side, each field named by its path. The selector's numeric tags and
  the enumerators' values are not known; they are datatypes, \<open>PAYLOAD_NOT_SET\<close> being
  the selector of a zeroed message.
\<close>

datatype RawData_Status = STATUS_FIRST_CHUNK | STATUS_MIDDLE_CHUNK | STATUS_LAST_CHUNK

datatype payload_tag =
  PAYLOAD_NOT_SET
  | MyMessage_encryption_params_tag
  | MyMessage_raw_data_tag
  | MyMessage_ack_tag

record MyMessage =
  which_payload :: payload_tag
  nb_rounds :: u32
  raw_data_stat :: RawData_Status
  raw_data_chunk_no :: u32
  raw_data_base_address :: u32
  raw_data_size :: u32
  raw_data_bytes :: "u8 list"

definition MyMessage_init_zero :: MyMessage where
  "MyMessage_init_zero =
     \<lparr>which_payload = PAYLOAD_NOT_SET, nb_rounds = 0, raw_data_stat = STATUS_FIRST_CHUNK,
      raw_data_chunk_no = 0, raw_data_base_address = 0, raw_data_size = 0,
      raw_data_bytes = []\<rparr>"

text \<open>
  What the program writes to its output stream, as the sequence of the nanopb calls it
  makes on it, each with the arguments the source passes. The bytes each call produces
  are nanopb's business and are not modelled. \<open>PB_message m\<close> is
  \<^verbatim>\<open>pb_encode(&o_stream, MyMessage_fields, &m)\<close>.
\<close>

datatype pb_wire_type = PB_WT_VARINT | PB_WT_64BIT | PB_WT_STRING | PB_WT_32BIT

datatype RawData_field =
  RawData_stat_tag | RawData_chunk_no_tag | RawData_base_address_tag | RawData_data_tag

datatype pb_call =
  PB_tag pb_wire_type RawData_field
  | PB_varint u64
  | PB_fixed32 u32
  | PB_string "u8 list"
  | PB_message MyMessage

text \<open>
  Modelled from the spec: the numeric values of the \<^verbatim>\<open>RawData_Status\<close> enumerators, in
  the order in which the spec lists them (\<^verbatim>\<open>message.pb.h\<close> is absent).
\<close>

fun status_code :: "RawData_Status \<Rightarrow> u32" where
  "status_code STATUS_FIRST_CHUNK = 0"
| "status_code STATUS_MIDDLE_CHUNK = 1"
| "status_code STATUS_LAST_CHUNK = 2"

subsection \<open>client.c and encrypt.c: the data\<close>

record encryption_chunk_t =
  chunk_no :: u32
  base_addr :: u32
  chunk_size :: u32
  is_last :: bool
  data_ptr :: u32

definition zero_chunk :: encryption_chunk_t where
  "zero_chunk = \<lparr>chunk_no = 0, base_addr = 0, chunk_size = 0, is_last = False, data_ptr = 0\<rparr>"

datatype current_cmd_t = NONE | ENCRYPT | SET_KEYS

datatype cypher_mask = MASK_ZERO | CYPHER_CACHE_DST | CYPHER_DST_MASK

record LL_Cypher_InitTypeDef =
  srcAdd :: u32
  dstAdd :: u32
  len :: u32
  cypherCacheMask :: cypher_mask
  cypherEnableMask :: cypher_mask
  busIfKeyLsb :: u64
  busIfKeyMsb :: u64

datatype error =
  ASSERT_o_stream_errmsg
  | ASSERT_src_aligned
  | ASSERT_dst_aligned
  | ASSERT_real_life_address_aligned
  | DMA_WRITES_PAST_BUFFER

text \<open>
  What the program does not contain, taken as parameters:
  \<^item> \<open>pb_decode\<close>: nanopb's decoder of a \<^verbatim>\<open>MyMessage\<close> from the first bytes of the input
    buffer. It works in place on \<^verbatim>\<open>rx_msg\<close> and, through \<^verbatim>\<open>msg_callback\<close> and
    \<^verbatim>\<open>EncryptionParams_callback\<close>, writes the key words straight into
    \<^verbatim>\<open>enc_p.encryption_keys\<close>; so it maps the bytes, the old message and the old keys to
    its status, the new message and the new keys.
  \<^item> \<open>o_stream_ok\<close>: whether nanopb reports no error (\<^verbatim>\<open>errmsg == 0\<close>) after these calls
    on a stream of \<open>O_STREAM_SIZE_BYTES\<close> bytes.
  \<^item> \<open>streng_readback\<close>: the hardware; the bytes that \<^verbatim>\<open>dma_memcpy_with_streng\<close> delivers
    at \<^verbatim>\<open>dst\<close> after \<^verbatim>\<open>LL_DmaCypherInit\<close> with this configuration, given the content
    of the receive shadow buffer and the number of bytes to read back.
  \<^item> \<open>rx_shadow_addr\<close>, \<open>tx_shadow_addr\<close>: the addresses of
    \<^verbatim>\<open>rx_buffered_raw_data.buffer\<close> and \<^verbatim>\<open>tx_buffered_raw_data.buffer\<close> (both declared
    \<^verbatim>\<open>__ALIGNED(8)\<close>).
\<close>

record platform =
  pb_decode :: "u8 list \<Rightarrow> MyMessage \<Rightarrow> u32 list \<Rightarrow> bool \<times> MyMessage \<times> u32 list"
  o_stream_ok :: "pb_call list \<Rightarrow> bool"
  streng_readback :: "LL_Cypher_InitTypeDef \<Rightarrow> u8 list \<Rightarrow> nat \<Rightarrow> u8 list"
  rx_shadow_addr :: u32
  tx_shadow_addr :: u32

text \<open>
  The globals. \<open>rx_armed\<close> is the size of the DMA receive that the UART has accepted and
  that has not completed yet, \<open>tx_log\<close> the packets handed to the UART by
  \<^verbatim>\<open>uart_write_packet\<close> (its 4-byte header is the number of bytes of the stream),
  \<open>cypher_log\<close> the configurations given to \<^verbatim>\<open>LL_DmaCypherInit\<close>, \<open>led_red\<close> and
  \<open>led_green\<close> the two LEDs of the board. The byte arrays are lists: the three buffers
  have \<open>I_STREAM_SIZE_BYTES\<close> elements at the start of a run, and the input buffer keeps
  that length.
\<close>

record state =
  input_stream_buffer :: "u8 list"
  receiving_len :: bool
  receiving_pb :: bool
  dma_complete :: bool
  command_ready :: bool
  xfer_len :: u32
  rtr :: bool
  rts :: bool
  rx_armed :: "u16 option"
  tx_log :: "pb_call list list"
  o_stream :: "pb_call list"
  rx_buffered_size :: u32
  rx_buffered_buffer :: "u8 list"
  tx_buffered_size :: u32
  tx_buffered_buffer :: "u8 list"
  encryption_keys :: "u32 list"
  encryption_rounds :: u32
  buffered_chunk :: encryption_chunk_t
  current_chunk :: encryption_chunk_t
  rx_msg :: MyMessage
  tx_msg :: MyMessage
  rx_ready :: bool
  processing_done :: bool
  rx_shadow_buffer_ready :: bool
  tx_shadow_buffer_ready :: bool
  current_cmd :: current_cmd_t
  s_keys :: "u64 list"
  s_nbrounds :: u32
  cypher_log :: "LL_Cypher_InitTypeDef list"
  led_red :: bool
  led_green :: bool

text \<open>
  \<^verbatim>\<open>memcpy(dst, src, n)\<close> on arrays as lists: the first \<open>n\<close> bytes of \<open>dst\<close> are replaced
  by the first \<open>n\<close> bytes of \<open>src\<close>.
\<close>

definition memcpy :: "u8 list \<Rightarrow> u8 list \<Rightarrow> nat \<Rightarrow> u8 list" where
  "memcpy dst src n = take n src @ drop n dst"

text \<open>The C globals before \<^verbatim>\<open>main\<close>: all zero.\<close>

definition zero_state :: state where
  "zero_state =
     \<lparr>input_stream_buffer = replicate I_STREAM_SIZE_BYTES 0,
      receiving_len = False, receiving_pb = False, dma_complete = False,
      command_ready = False, xfer_len = 0, rtr = False, rts = False,
      rx_armed = None, tx_log = [], o_stream = [],
      rx_buffered_size = 0, rx_buffered_buffer = replicate I_STREAM_SIZE_BYTES 0,
      tx_buffered_size = 0, tx_buffered_buffer = replicate I_STREAM_SIZE_BYTES 0,
      encryption_keys = replicate 4 0, encryption_rounds = 0,
      buffered_chunk = zero_chunk, current_chunk = zero_chunk,
      rx_msg = MyMessage_init_zero, tx_msg = MyMessage_init_zero,
      rx_ready = False, processing_done = False,
      rx_shadow_buffer_ready = False, tx_shadow_buffer_ready = False,
      current_cmd = NONE, s_keys = replicate 2 0, s_nbrounds = 0, cypher_log = [],
      led_red = False, led_green = False\<rparr>"

subsection \<open>pb\_to\_uart.c: the framing layer\<close>

definition uart_write_packet :: "state \<Rightarrow> state" where
  "uart_write_packet s = s\<lparr>tx_log := tx_log s @ [o_stream s], rts := False\<rparr>"

definition init_uart_pb :: "state \<Rightarrow> state" where
  "init_uart_pb s =
     s\<lparr>receiving_len := False, receiving_pb := False, dma_complete := False,
       command_ready := False, xfer_len := 0, rtr := True, rts := True\<rparr>"

text \<open>
  Modelled from the spec: the byte transport's \<open>startReceive(buffer, length)\<close>, which the
  source calls as \<^verbatim>\<open>HAL_UART_Receive_DMA(&huart1, input_stream_buffer, Size)\<close>; the HAL is
  not among the sources. Its size parameter is a \<^verbatim>\<open>uint16_t\<close>: the 32-bit value of the
  source is narrowed to its low 16 bits. A size of 0 is refused and arms nothing. The
  source calls it only when the previous receive has completed.
\<close>

definition HAL_UART_Receive_DMA :: "u32 \<Rightarrow> state \<Rightarrow> state" where
  "HAL_UART_Receive_DMA Size s =
     (if (ucast Size :: u16) = 0 then s else s\<lparr>rx_armed := Some (ucast Size)\<rparr>)"

definition client_rx_command_len :: "state \<Rightarrow> state" where
  "client_rx_command_len s = HAL_UART_Receive_DMA 4 (s\<lparr>receiving_len := True\<rparr>)"

definition HAL_UART_RxCpltCallback :: "state \<Rightarrow> state" where
  "HAL_UART_RxCpltCallback s = s\<lparr>dma_complete := True, rtr := False\<rparr>"

definition HAL_UART_TxCpltCallback :: "state \<Rightarrow> state" where
  "HAL_UART_TxCpltCallback s = s\<lparr>rts := True\<rparr>"

text \<open>
  \<^verbatim>\<open>*(uint32_t*)input_stream_buffer\<close> on the little-endian Cortex-M: the first four bytes
  of the array, which has more than four.
\<close>

definition read_u32 :: "u8 list \<Rightarrow> u32" where
  "read_u32 b =
     ucast (b ! 0) OR push_bit 8 (ucast (b ! 1)) OR push_bit 16 (ucast (b ! 2))
       OR push_bit 24 (ucast (b ! 3))"

definition handle_uart :: "state \<Rightarrow> state" where
  "handle_uart s =
     (if dma_complete s then
        (if receiving_len s then
           (let s1 = s\<lparr>xfer_len := read_u32 (input_stream_buffer s)\<rparr>;
                s2 = HAL_UART_Receive_DMA (xfer_len s1) s1
            in s2\<lparr>rtr := False, receiving_len := False, receiving_pb := True,
                 dma_complete := False\<rparr>)
         else if receiving_pb s then
           (let s1 = s\<lparr>command_ready := True, receiving_pb := False, receiving_len := True\<rparr>;
                s2 = HAL_UART_Receive_DMA 4 s1
            in s2\<lparr>rtr := False, dma_complete := False\<rparr>)
         else s\<lparr>dma_complete := False\<rparr>)
      else s)"

subsection \<open>The interrupts of the UART\<close>

text \<open>
  The UART raises two interrupts. The reception interrupt comes when the armed receive
  has completed, with the bytes that the DMA has written to the start of the input
  buffer; it cannot come when no receive is armed or for another number of bytes than
  the armed one (the interrupt then changes nothing). A reception of more bytes than the
  buffer holds has written past the end of the array. The transmission interrupt comes
  when a packet has left. The handlers are \<^verbatim>\<open>HAL_UART_RxCpltCallback\<close> and
  \<^verbatim>\<open>HAL_UART_TxCpltCallback\<close>.
\<close>

datatype irq = RX_IRQ "u8 list" | TX_IRQ

definition rx_completes :: "u8 list \<Rightarrow> state \<Rightarrow> bool" where
  "rx_completes dat s =
     (case rx_armed s of
        None \<Rightarrow> False
      | Some n \<Rightarrow> length dat = unat n \<and> 0 < length dat)"

fun take_irq :: "irq \<Rightarrow> state \<Rightarrow> error + state" where
  "take_irq (RX_IRQ dat) s =
     (if rx_completes dat s then
        (if I_STREAM_SIZE_BYTES < length dat then Inl DMA_WRITES_PAST_BUFFER
         else Inr (HAL_UART_RxCpltCallback
                     (s\<lparr>input_stream_buffer :=
                          memcpy (input_stream_buffer s) dat (length dat),
                        rx_armed := None\<rparr>)))
      else Inr s)"
| "take_irq TX_IRQ s = Inr (HAL_UART_TxCpltCallback s)"

fun take_irqs :: "irq list \<Rightarrow> state \<Rightarrow> error + state" where
  "take_irqs [] s = Inr s"
| "take_irqs (q # qs) s =
     (case take_irq q s of Inl e \<Rightarrow> Inl e | Inr s' \<Rightarrow> take_irqs qs s')"

subsection \<open>encrypt.c: the cipher invocation\<close>

definition LS32_MASK32_MSB :: "u32 \<Rightarrow> u64" where
  "LS32_MASK32_MSB x = push_bit 32 (ucast x) AND 0xFFFFFFFF00000000"

definition MASK32_LSB :: "u32 \<Rightarrow> u64" where
  "MASK32_LSB x = ucast x AND 0x00000000FFFFFFFF"

definition CONCAT_KEYS :: "u32 \<Rightarrow> u32 \<Rightarrow> u64" where
  "CONCAT_KEYS x y = LS32_MASK32_MSB x OR MASK32_LSB y"

definition encrypt_set_keys_and_round :: "u32 list \<Rightarrow> u32 \<Rightarrow> state \<Rightarrow> state" where
  "encrypt_set_keys_and_round keys round_nb s =
     s\<lparr>s_keys := [CONCAT_KEYS (keys ! 1) (keys ! 0), CONCAT_KEYS (keys ! 3) (keys ! 2)],
       s_nbrounds := round_nb\<rparr>"

text \<open>The length that \<^verbatim>\<open>encrypt_encrypt\<close> programs: \<^verbatim>\<open>((len / 8) + 1) * 8\<close> on \<^verbatim>\<open>uint32_t\<close>.\<close>

definition len_aligned :: "u32 \<Rightarrow> u32" where
  "len_aligned l = ((l div 8) + 1) * 8"

text \<open>
  \<^verbatim>\<open>encrypt_encrypt(dst, src, len, real_life_address)\<close>. Its one caller passes the
  transmit shadow buffer as \<open>dst\<close> and a pointer to the receive shadow buffer as \<open>src\<close>,
  so the bytes read back land in \<open>tx_buffered_buffer\<close>, and the hardware is given the
  content of \<open>rx_buffered_buffer\<close>. \<^verbatim>\<open>dma_memcpy_with_streng\<close> does nothing when its
  length is 0. Enabling and disabling the NPU cache leaves no trace in the state.
\<close>

definition encrypt_encrypt ::
  "platform \<Rightarrow> u32 \<Rightarrow> u32 \<Rightarrow> u32 \<Rightarrow> u32 \<Rightarrow> state \<Rightarrow> error + state" where
  "encrypt_encrypt plat dst src l real_life_address s =
     (if src mod 8 \<noteq> 0 then Inl ASSERT_src_aligned
      else if dst mod 8 \<noteq> 0 then Inl ASSERT_dst_aligned
      else if real_life_address mod 8 \<noteq> 0 then Inl ASSERT_real_life_address_aligned
      else
        (let cypherConfig =
               \<lparr>srcAdd = src, dstAdd = real_life_address, len = len_aligned l,
                cypherCacheMask = CYPHER_CACHE_DST, cypherEnableMask = CYPHER_DST_MASK,
                busIfKeyLsb = s_keys s ! 0, busIfKeyMsb = s_keys s ! 1\<rparr>
         in Inr (s\<lparr>cypher_log := cypher_log s @ [cypherConfig],
                  tx_buffered_buffer :=
                    (if 0 < unat l
                     then memcpy (tx_buffered_buffer s)
                            (streng_readback plat cypherConfig (rx_buffered_buffer s) (unat l))
                            (unat l)
                     else tx_buffered_buffer s)\<rparr>)))"

subsection \<open>client.c: streams and messages\<close>

definition client_clear_output_stream :: "state \<Rightarrow> state" where
  "client_clear_output_stream s = s\<lparr>o_stream := []\<rparr>"

definition init_pb :: "state \<Rightarrow> state" where
  "init_pb s =
     (client_clear_output_stream s)
       \<lparr>rx_ready := False, processing_done := False,
        rx_shadow_buffer_ready := True, tx_shadow_buffer_ready := True,
        encryption_keys := replicate 4 0, encryption_rounds := 0,
        buffered_chunk := zero_chunk, current_chunk := zero_chunk\<rparr>"

text \<open>
  \<^verbatim>\<open>client_send_raw_data(status, chunk_no, ptr, bufsize)\<close>; \<open>ptr\<close> is given as the bytes
  it points to, and the parameter \<^verbatim>\<open>chunk_no\<close> is called \<open>chunk_number\<close> here. The stream is
  not cleared first: the calls are appended to it, each recorded with the argument the
  source writes in the call. The argument \<open>status\<close> is not used by the source.
\<close>

definition client_send_raw_data ::
  "platform \<Rightarrow> u32 \<Rightarrow> u32 \<Rightarrow> u8 list \<Rightarrow> u32 \<Rightarrow> state \<Rightarrow> error + state" where
  "client_send_raw_data plat status chunk_number ptr bufsize s =
     (let s1 = s\<lparr>o_stream := o_stream s @
                  [PB_tag PB_WT_VARINT RawData_stat_tag,
                   PB_varint (ucast (status_code STATUS_FIRST_CHUNK)),
                   PB_tag PB_WT_32BIT RawData_chunk_no_tag,
                   PB_fixed32 chunk_number,
                   PB_tag PB_WT_STRING RawData_data_tag,
                   PB_string (take (unat bufsize) ptr)]\<rparr>
      in if \<not> o_stream_ok plat (o_stream s1) then Inl ASSERT_o_stream_errmsg
         else Inr (uart_write_packet s1))"

definition send_ack :: "platform \<Rightarrow> state \<Rightarrow> error + state" where
  "send_ack plat s =
     (let s1 = s\<lparr>led_red := \<not> led_red s, o_stream := [],
                 tx_msg := (tx_msg s)\<lparr>which_payload := MyMessage_ack_tag\<rparr>\<rparr>;
          s2 = s1\<lparr>o_stream := o_stream s1 @ [PB_message (tx_msg s1)]\<rparr>
      in if \<not> o_stream_ok plat (o_stream s2) then Inl ASSERT_o_stream_errmsg
         else Inr (uart_write_packet s2))"

definition send_raw_data :: "platform \<Rightarrow> u32 \<Rightarrow> state \<Rightarrow> error + state" where
  "send_raw_data plat sz s =
     (let s1 = s\<lparr>led_red := \<not> led_red s, o_stream := [],
                 tx_msg := (tx_msg s)
                   \<lparr>which_payload := MyMessage_raw_data_tag,
                    raw_data_size := chunk_size (current_chunk s),
                    raw_data_chunk_no := chunk_no (current_chunk s),
                    raw_data_base_address := base_addr (current_chunk s)\<rparr>\<rparr>;
          s2 = s1\<lparr>o_stream := o_stream s1 @ [PB_message (tx_msg s1)]\<rparr>
      in if \<not> o_stream_ok plat (o_stream s2) then Inl ASSERT_o_stream_errmsg
         else Inr (uart_write_packet s2))"

subsection \<open>client.c: the dispatcher\<close>

text \<open>
  \<^verbatim>\<open>client_parse_msg(size_bytes)\<close>. The decoder reads the first \<open>size_bytes\<close> bytes of the
  input buffer. The \<^verbatim>\<open>printf\<close> of the failure branch leaves no trace in the state.
\<close>

definition client_parse_msg :: "platform \<Rightarrow> u32 \<Rightarrow> state \<Rightarrow> error + state" where
  "client_parse_msg plat size_bytes s =
     (case pb_decode plat (take (unat size_bytes) (input_stream_buffer s))
             (rx_msg s) (encryption_keys s) of
        (status, m, k) \<Rightarrow>
          (let s1 = s\<lparr>rx_msg := m, encryption_keys := k, led_green := \<not> led_green s\<rparr>
           in if \<not> status then Inr s1
              else
                (case which_payload (rx_msg s1) of
                   MyMessage_encryption_params_tag \<Rightarrow>
                     (let s2 = s1\<lparr>encryption_rounds := nb_rounds (rx_msg s1)\<rparr>;
                          s3 = encrypt_set_keys_and_round (encryption_keys s2)
                                 (encryption_rounds s2) s2
                      in case send_ack plat s3 of
                           Inl e \<Rightarrow> Inl e
                         | Inr s4 \<Rightarrow> Inr (s4\<lparr>current_cmd := NONE\<rparr>))
                 | MyMessage_raw_data_tag \<Rightarrow>
                     Inr (s1\<lparr>rx_ready := True, current_cmd := ENCRYPT\<rparr>)
                 | _ \<Rightarrow> Inr (s1\<lparr>current_cmd := NONE\<rparr>))))"

subsection \<open>client.c: the encryption pipeline\<close>

text \<open>
  \<^verbatim>\<open>process_encryption\<close> is three \<^verbatim>\<open>if\<close> statements in a row behind the test of
  \<^verbatim>\<open>current_cmd\<close>. Each is given here as its condition and its body; the function
  composes them in the order of the source.
\<close>

definition stage_guard :: "state \<Rightarrow> bool" where
  "stage_guard s = (rx_ready s = True \<and> rx_shadow_buffer_ready s = True)"

definition stage_body :: "platform \<Rightarrow> state \<Rightarrow> state" where
  "stage_body plat s =
     (let sz = raw_data_size (rx_msg s) in
      s\<lparr>rx_buffered_size := sz,
        rx_buffered_buffer :=
          memcpy (rx_buffered_buffer s) (raw_data_bytes (rx_msg s)) (unat sz),
        buffered_chunk :=
          \<lparr>chunk_no = raw_data_chunk_no (rx_msg s),
           base_addr = raw_data_base_address (rx_msg s),
           chunk_size = sz,
           is_last = (raw_data_stat (rx_msg s) = STATUS_LAST_CHUNK),
           data_ptr = rx_shadow_addr plat\<rparr>,
        rx_ready := False,
        rx_shadow_buffer_ready := False,
        rtr := True\<rparr>)"

definition dispatch_guard :: "state \<Rightarrow> bool" where
  "dispatch_guard s =
     (rx_shadow_buffer_ready s = False \<and> tx_shadow_buffer_ready s = True \<and> rts s = True)"

definition dispatch_body :: "platform \<Rightarrow> state \<Rightarrow> error + state" where
  "dispatch_body plat s =
     (case send_ack plat s of
        Inl e \<Rightarrow> Inl e
      | Inr s1 \<Rightarrow>
          (let s2 = s1\<lparr>current_chunk := buffered_chunk s1\<rparr>;
               s3 = s2\<lparr>tx_shadow_buffer_ready := False, processing_done := False,
                       tx_buffered_size := chunk_size (current_chunk s2)\<rparr>
           in case encrypt_encrypt plat (tx_shadow_addr plat) (data_ptr (current_chunk s3))
                     (chunk_size (current_chunk s3)) (base_addr (current_chunk s3)) s3 of
                Inl e \<Rightarrow> Inl e
              | Inr s4 \<Rightarrow> Inr (s4\<lparr>processing_done := True\<rparr>)))"

definition complete_guard :: "state \<Rightarrow> bool" where
  "complete_guard s = (processing_done s = True \<and> rts s = True)"

definition complete_body :: "platform \<Rightarrow> state \<Rightarrow> error + state" where
  "complete_body plat s =
     (let s1 = s\<lparr>rx_shadow_buffer_ready := True, processing_done := False\<rparr>;
          s2 = s1\<lparr>tx_msg := (tx_msg s1)
                  \<lparr>raw_data_bytes :=
                     memcpy (raw_data_bytes (tx_msg s1)) (tx_buffered_buffer s1)
                       (unat (chunk_size (current_chunk s1)))\<rparr>,
                  tx_shadow_buffer_ready := True\<rparr>
      in case send_raw_data plat (chunk_size (current_chunk s2)) s2 of
           Inl e \<Rightarrow> Inl e
         | Inr s3 \<Rightarrow>
             Inr (if is_last (current_chunk s3) = True
                  then s3\<lparr>led_red := False, led_green := False\<rparr>
                  else s3))"

text \<open>
  Interrupts are taken while the tick runs. The tick shares three variables with the
  handlers: it reads \<open>rts\<close> in the tests of Dispatch and of Complete, clears it when it
  hands a packet to the UART, and sets \<open>rtr\<close> at the end of Stage. An interrupt taken
  before the test of Dispatch acts as one taken before the tick, and one taken after the
  test of Complete as one taken after the tick. There remains the window between the two
  tests: the Dispatch statement, with its blocking cipher call, and the way to the test
  of Complete. The argument \<open>w\<close> is the list of the interrupts taken in that window; as
  Dispatch touches no shared variable after \<^verbatim>\<open>send_ack\<close>, they act at its end. When the
  command is not \<open>ENCRYPT\<close> the tick returns at once, and they act on the state as it is.
\<close>

definition process_encryption :: "platform \<Rightarrow> irq list \<Rightarrow> state \<Rightarrow> error + state" where
  "process_encryption plat w s =
     (if current_cmd s \<noteq> ENCRYPT then take_irqs w s
      else
        (let s1 = (if stage_guard s then stage_body plat s else s) in
         case (if dispatch_guard s1 then dispatch_body plat s1 else Inr s1) of
           Inl e \<Rightarrow> Inl e
         | Inr s2 \<Rightarrow>
             (case take_irqs w s2 of
                Inl e \<Rightarrow> Inl e
              | Inr s3 \<Rightarrow> (if complete_guard s3 then complete_body plat s3 else Inr s3))))"

subsection \<open>pb\_to\_uart.c: the command handler\<close>

text \<open>The first \<^verbatim>\<open>if\<close> of \<^verbatim>\<open>handle_commands\<close>: a frame that is ready is parsed.\<close>

definition parse_pending :: "platform \<Rightarrow> state \<Rightarrow> error + state" where
  "parse_pending plat s =
     (if command_ready s = True
      then (case client_parse_msg plat (xfer_len s) s of
              Inl e \<Rightarrow> Inl e
            | Inr s1 \<Rightarrow> Inr (s1\<lparr>command_ready := False\<rparr>))
      else Inr s)"

text \<open>
  \<^verbatim>\<open>handle_commands\<close>, with the interrupts \<open>w0\<close> taken between the parsing and the tick
  and the interrupts \<open>w\<close> taken inside the tick.
\<close>

definition handle_commands ::
  "platform \<Rightarrow> irq list \<Rightarrow> irq list \<Rightarrow> state \<Rightarrow> error + state" where
  "handle_commands plat w0 w s =
     (case parse_pending plat s of
        Inl e \<Rightarrow> Inl e
      | Inr s1 \<Rightarrow>
          (case take_irqs w0 s1 of
             Inl e \<Rightarrow> Inl e
           | Inr s2 \<Rightarrow> process_encryption plat w s2))"

subsection \<open>Runs of the relay\<close>

text \<open>
  \<^verbatim>\<open>main\<close> is not among the sources. A run starts from the zeroed globals with the three
  initialisation functions of the relay called in the order \<^verbatim>\<open>init_uart_pb\<close>,
  \<^verbatim>\<open>init_pb\<close>, \<^verbatim>\<open>client_rx_command_len\<close>, and is then a sequence of events: an interrupt
  taken between two polling functions, a call of \<^verbatim>\<open>handle_uart\<close>, or a call of
  \<^verbatim>\<open>handle_commands\<close> with the interrupts taken inside it. \<^verbatim>\<open>handle_uart\<close> is one step:
  no receive is armed while it runs until it arms one, and that one has not received
  its first byte when the few assignments that follow are done.
\<close>

definition boot :: state where
  "boot = client_rx_command_len (init_pb (init_uart_pb zero_state))"

datatype event = IRQ irq | HANDLE_UART | HANDLE_COMMANDS "irq list" "irq list"

fun step :: "platform \<Rightarrow> event \<Rightarrow> state \<Rightarrow> error + state" where
  "step plat (IRQ q) s = take_irq q s"
| "step plat HANDLE_UART s = Inr (handle_uart s)"
| "step plat (HANDLE_COMMANDS w0 w) s = handle_commands plat w0 w s"

fun exec :: "platform \<Rightarrow> event list \<Rightarrow> state \<Rightarrow> error + state" where
  "exec plat [] s = Inr s"
| "exec plat (e # es) s =
     (case step plat e s of Inl err \<Rightarrow> Inl err | Inr s' \<Rightarrow> exec plat es s')"

subsection \<open>Which bodies a tick executes\<close>

text \<open>
  Read off the control flow of \<^verbatim>\<open>process_encryption\<close>: the Stage body executes when the
  command is \<open>ENCRYPT\<close> and its condition holds on entry; the Dispatch body when its
  condition holds in the state that Stage leaves; the Complete body when its condition
  holds in the state that Dispatch and the interrupts of the window leave.
\<close>

definition after_stage :: "platform \<Rightarrow> state \<Rightarrow> state" where
  "after_stage plat s = (if stage_guard s then stage_body plat s else s)"

definition after_dispatch :: "platform \<Rightarrow> state \<Rightarrow> error + state" where
  "after_dispatch plat s =
     (if dispatch_guard (after_stage plat s) then dispatch_body plat (after_stage plat s)
      else Inr (after_stage plat s))"

definition before_complete :: "platform \<Rightarrow> irq list \<Rightarrow> state \<Rightarrow> error + state" where
  "before_complete plat w s =
     (case after_dispatch plat s of Inl e \<Rightarrow> Inl e | Inr u \<Rightarrow> take_irqs w u)"

definition runs_stage :: "state \<Rightarrow> bool" where
  "runs_stage s = (current_cmd s = ENCRYPT \<and> stage_guard s)"

definition runs_dispatch :: "platform \<Rightarrow> state \<Rightarrow> bool" where
  "runs_dispatch plat s = (current_cmd s = ENCRYPT \<and> dispatch_guard (after_stage plat s))"

definition runs_complete :: "platform \<Rightarrow> irq list \<Rightarrow> state \<Rightarrow> bool" where
  "runs_complete plat w s =
     (current_cmd s = ENCRYPT \<and>
      (case before_complete plat w s of Inl e \<Rightarrow> False | Inr u \<Rightarrow> complete_guard u))"

definition bodies_run :: "platform \<Rightarrow> irq list \<Rightarrow> state \<Rightarrow> nat" where
  "bodies_run plat w s =
     length (filter id [runs_stage s, runs_dispatch plat s, runs_complete plat w s])"

subsection \<open>Observations on a state\<close>

text \<open>A packet of the log that is a \<^verbatim>\<open>RawData\<close> result frame, and their number.\<close>

fun is_result :: "pb_call list \<Rightarrow> bool" where
  "is_result [PB_message m] = (which_payload m = MyMessage_raw_data_tag)"
| "is_result p = False"

definition results_sent :: "state \<Rightarrow> nat" where
  "results_sent s = length (filter is_result (tx_log s))"

text \<open>The chunks given to the cipher whose result frame has not been transmitted yet.\<close>

definition in_flight :: "state \<Rightarrow> nat" where
  "in_flight s = (if processing_done s then 1 else 0)"

text \<open>
  The relation between the flags that every run keeps: a chunk has been encrypted and
  waits for its transmission exactly when the transmit shadow buffer is taken, and then
  the receive shadow buffer is taken too; and every configuration given to the cipher is
  matched by one result frame, or is the one in flight.
\<close>

definition pipeline_inv :: "state \<Rightarrow> bool" where
  "pipeline_inv s =
     (processing_done s = (\<not> tx_shadow_buffer_ready s) \<and>
      \<not> (processing_done s \<and> rx_shadow_buffer_ready s) \<and>
      results_sent s + in_flight s = length (cypher_log s))"

text \<open>\<^verbatim>\<open>handle_uart\<close> calls \<^verbatim>\<open>HAL_UART_Receive_DMA\<close> in this state.\<close>

definition arms_receive :: "state \<Rightarrow> bool" where
  "arms_receive s = (dma_complete s \<and> (receiving_len s \<or> receiving_pb s))"

text \<open>
  The message that the Complete body, entered in this state, leaves in \<^verbatim>\<open>tx_msg\<close> and
  encodes: the outbound message with the first \<open>chunk_size\<close> bytes of the transmit shadow
  buffer copied into its byte array and the fields that \<^verbatim>\<open>send_raw_data\<close> assigns.
\<close>

definition result_message :: "state \<Rightarrow> MyMessage" where
  "result_message s =
     (tx_msg s)
       \<lparr>raw_data_bytes :=
          memcpy (raw_data_bytes (tx_msg s)) (tx_buffered_buffer s)
            (unat (chunk_size (current_chunk s))),
        which_payload := MyMessage_raw_data_tag,
        raw_data_size := chunk_size (current_chunk s),
        raw_data_chunk_no := chunk_no (current_chunk s),
        raw_data_base_address := base_addr (current_chunk s)\<rparr>"

subsection \<open>Whether a chunk has been staged since the last reception\<close>

text \<open>
  Followed along a run: the flag is cleared when a reception completes and set when the
  Stage body executes. Inside \<^verbatim>\<open>handle_commands\<close> the order is that of the function: the
  interrupts between parsing and tick, then Stage (when the command is \<open>ENCRYPT\<close> and its
  condition holds), then the interrupts of the window.
\<close>

fun completes :: "irq \<Rightarrow> state \<Rightarrow> bool" where
  "completes (RX_IRQ dat) s = rx_completes dat s"
| "completes TX_IRQ s = False"

fun irqs_staged :: "irq list \<Rightarrow> state \<Rightarrow> bool \<Rightarrow> bool" where
  "irqs_staged [] s b = b"
| "irqs_staged (q # qs) s b =
     (case take_irq q s of
        Inl e \<Rightarrow> b
      | Inr s' \<Rightarrow> irqs_staged qs s' (b \<and> \<not> completes q s))"

definition tick_staged :: "platform \<Rightarrow> irq list \<Rightarrow> state \<Rightarrow> bool \<Rightarrow> bool" where
  "tick_staged plat w s b =
     (if current_cmd s \<noteq> ENCRYPT then irqs_staged w s b
      else (case after_dispatch plat s of
              Inl e \<Rightarrow> b
            | Inr u \<Rightarrow> irqs_staged w u (b \<or> stage_guard s)))"

fun staged_step :: "platform \<Rightarrow> event \<Rightarrow> state \<Rightarrow> bool \<Rightarrow> bool" where
  "staged_step plat (IRQ q) s b = (b \<and> \<not> completes q s)"
| "staged_step plat HANDLE_UART s b = b"
| "staged_step plat (HANDLE_COMMANDS w0 w) s b =
     (case parse_pending plat s of
        Inl e \<Rightarrow> b
      | Inr s1 \<Rightarrow>
          (case take_irqs w0 s1 of
             Inl e \<Rightarrow> b
           | Inr s2 \<Rightarrow> tick_staged plat w s2 (irqs_staged w0 s1 b)))"

fun staged_since_rx :: "platform \<Rightarrow> event list \<Rightarrow> state \<Rightarrow> bool \<Rightarrow> bool" where
  "staged_since_rx plat [] s b = b"
| "staged_since_rx plat (e # es) s b =
     (case step plat e s of
        Inl err \<Rightarrow> b
      | Inr s' \<Rightarrow> staged_since_rx plat es s' (staged_step plat e s b))"

subsection \<open>A platform for concrete runs\<close>

text \<open>
  An instance of the parameters, to run the relay on concrete frames: a decoder of a toy
  format (first byte 1: \<^verbatim>\<open>EncryptionParams\<close> with four one-byte keys and the rounds, and
  when the frame is cut short the decoder fails after it has written the keys it found;
  2: \<^verbatim>\<open>RawData\<close> with status, chunk number, base address \<open>0x1000\<close> and the payload;
  3: \<^verbatim>\<open>Ack\<close>; anything else fails), a stream that never overflows, and a data mover
  that returns the source bytes inverted.
\<close>

definition demo_decode :: "u8 list \<Rightarrow> MyMessage \<Rightarrow> u32 list \<Rightarrow> bool \<times> MyMessage \<times> u32 list" where
  "demo_decode b m k =
     (case b of
        [] \<Rightarrow> (False, m, k)
      | t # r \<Rightarrow>
          (if t = 1 \<and> 5 \<le> length r then
             (True,
              m\<lparr>which_payload := MyMessage_encryption_params_tag, nb_rounds := ucast (r ! 4)\<rparr>,
              map ucast (take 4 r))
           else if t = 1 then
             (False, m\<lparr>which_payload := MyMessage_encryption_params_tag\<rparr>,
              map ucast (take 4 r) @ drop (length (take 4 r)) k)
           else if t = 2 \<and> 2 \<le> length r then
             (True,
              m\<lparr>which_payload := MyMessage_raw_data_tag,
                raw_data_stat := (if r ! 0 = 2 then STATUS_LAST_CHUNK
                                  else if r ! 0 = 1 then STATUS_MIDDLE_CHUNK
                                  else STATUS_FIRST_CHUNK),
                raw_data_chunk_no := ucast (r ! 1),
                raw_data_base_address := 0x1000,
                raw_data_size := of_nat (length (drop 2 r)),
                raw_data_bytes := drop 2 r\<rparr>,
              k)
           else if t = 3 then (True, m\<lparr>which_payload := MyMessage_ack_tag\<rparr>, k)
           else (False, m, k)))"

definition demo_platform :: platform where
  "demo_platform =
     \<lparr>pb_decode = demo_decode, o_stream_ok = (\<lambda>calls. True),
      streng_readback = (\<lambda>cfg src n. map (\<lambda>b. b XOR 0xFF) (take n src)),
      rx_shadow_addr = 0x34000000, tx_shadow_addr = 0x34002000\<rparr>"

text \<open>
  The host sends one \<^verbatim>\<open>RawData\<close> frame (status, chunk number, three bytes of payload):
  its length header and its payload arrive and are served.
\<close>

definition raw_frame :: "u8 \<Rightarrow> u8 \<Rightarrow> event list" where
  "raw_frame st n =
     [IRQ (RX_IRQ [6, 0, 0, 0]), HANDLE_UART, IRQ (RX_IRQ [2, st, n, 9, 8, 7]), HANDLE_UART]"

section \<open>Lemmas\<close>

lemmas pipeline_defs =
  process_encryption_def stage_guard_def stage_body_def dispatch_guard_def dispatch_body_def
  complete_guard_def complete_body_def send_ack_def send_raw_data_def uart_write_packet_def
  encrypt_encrypt_def after_stage_def after_dispatch_def before_complete_def

lemmas run_defs =
  boot_def zero_state_def init_uart_pb_def init_pb_def client_clear_output_stream_def
  client_rx_command_len_def zero_chunk_def MyMessage_init_zero_def I_STREAM_SIZE_BYTES_def
  MULTIPLE_TT_def HAL_UART_RxCpltCallback_def HAL_UART_TxCpltCallback_def handle_uart_def
  HAL_UART_Receive_DMA_def rx_completes_def
  read_u32_def memcpy_def handle_commands_def parse_pending_def client_parse_msg_def
  encrypt_set_keys_and_round_def len_aligned_def demo_platform_def demo_decode_def
  raw_frame_def runs_stage_def runs_dispatch_def runs_complete_def bodies_run_def
  results_sent_def in_flight_def arms_receive_def Let_def

subsection \<open>Words\<close>

lemma len_aligned_unat:
  "unat l < 2 ^ 32 - 8 \<Longrightarrow> unat (len_aligned l) = (unat l div 8 + 1) * 8"
  unfolding len_aligned_def by (simp add: unat_word_ariths unat_div)

lemma len_aligned_wraps:
  assumes "2 ^ 32 - 8 \<le> unat l"
  shows "len_aligned l = 0"
proof -
  have "unat l < 2 ^ 32"
    using unsigned_less [of l] by simp
  with assms have "unat (l div 8) = unat (536870911 :: u32)"
    by (simp add: unat_div)
  then have "l div 8 = 536870911"
    by (simp only: word_unat_eq_iff)
  then show ?thesis
    by (simp add: len_aligned_def)
qed

lemma round_up_nat:
  fixes n :: nat
  shows "(n div 8 + 1) * 8 mod 8 = 0" and "n < (n div 8 + 1) * 8"
    and "(n div 8 + 1) * 8 \<le> n + 8" and "n mod 8 = 0 \<Longrightarrow> (n div 8 + 1) * 8 = n + 8"
  by presburger+

lemma low_mask: "(0x00000000FFFFFFFF :: u64) = mask 32"
  by (simp add: mask_eq_exp_minus_1)

lemma high_mask: "(0xFFFFFFFF00000000 :: u64) = push_bit 32 (mask 32)"
  by (simp add: mask_eq_exp_minus_1 push_bit_eq_mult)

lemma CONCAT_KEYS_word_cat: "CONCAT_KEYS x y = word_cat x y"
  unfolding CONCAT_KEYS_def LS32_MASK32_MSB_def MASK32_LSB_def low_mask high_mask
  by (rule bit_word_eqI) (auto simp: bit_simps word_cat_eq_push_bit_or dest: bit_imp_le_length)

lemma unat_CONCAT_KEYS: "unat (CONCAT_KEYS x y) = unat x * 2 ^ 32 + unat y"
proof -
  have x: "unat x < 2 ^ 32" and y: "unat y < 2 ^ 32"
    using unsigned_less [of x] unsigned_less [of y] by simp_all
  have ux: "unat (ucast x :: u64) = unat x" and uy: "unat (ucast y :: u64) = unat y"
    using x y by (simp_all add: unsigned_ucast_eq take_bit_nat_eq_self)
  have "unat (CONCAT_KEYS x y) = (unat x * 2 ^ 32 + unat y) mod 2 ^ 64"
    by (simp add: CONCAT_KEYS_word_cat word_cat_eq unat_word_ariths push_bit_eq_mult ux uy
        mod_simps)
  also have "\<dots> = unat x * 2 ^ 32 + unat y"
    using x y by simp
  finally show ?thesis .
qed

subsection \<open>Interrupts\<close>

lemma take_irq_shape:
  assumes "take_irq q s = Inr u"
  shows "\<exists>b a d r. u = s\<lparr>input_stream_buffer := b, rx_armed := a, dma_complete := d, rtr := r,
                        rts := (q = TX_IRQ \<or> rts s)\<rparr>"
proof (cases q)
  case (RX_IRQ dat)
  show ?thesis
  proof (cases "rx_completes dat s")
    case True
    with assms RX_IRQ have
      "u = s\<lparr>input_stream_buffer := memcpy (input_stream_buffer s) dat (length dat),
             rx_armed := None, dma_complete := True, rtr := False, rts := (q = TX_IRQ \<or> rts s)\<rparr>"
      by (auto simp: HAL_UART_RxCpltCallback_def split: if_splits)
    then show ?thesis by blast
  next
    case False
    with assms RX_IRQ have
      "u = s\<lparr>input_stream_buffer := input_stream_buffer s, rx_armed := rx_armed s,
             dma_complete := dma_complete s, rtr := rtr s, rts := (q = TX_IRQ \<or> rts s)\<rparr>"
      by auto
    then show ?thesis by blast
  qed
next
  case TX_IRQ
  with assms have
    "u = s\<lparr>input_stream_buffer := input_stream_buffer s, rx_armed := rx_armed s,
           dma_complete := dma_complete s, rtr := rtr s, rts := (q = TX_IRQ \<or> rts s)\<rparr>"
    by (auto simp: HAL_UART_TxCpltCallback_def)
  then show ?thesis by blast
qed

lemma take_irqs_shape:
  "take_irqs w s = Inr u \<Longrightarrow>
   \<exists>b a d r. u = s\<lparr>input_stream_buffer := b, rx_armed := a, dma_complete := d, rtr := r,
                   rts := (TX_IRQ \<in> set w \<or> rts s)\<rparr>"
proof (induction w arbitrary: s)
  case Nil
  then have
    "u = s\<lparr>input_stream_buffer := input_stream_buffer s, rx_armed := rx_armed s,
           dma_complete := dma_complete s, rtr := rtr s, rts := (TX_IRQ \<in> set [] \<or> rts s)\<rparr>"
    by simp
  then show ?case by blast
next
  case (Cons q w)
  from Cons.prems obtain v where v: "take_irq q s = Inr v" and u: "take_irqs w v = Inr u"
    by (auto split: sum.splits)
  from take_irq_shape [OF v] obtain b a d r where
    "v = s\<lparr>input_stream_buffer := b, rx_armed := a, dma_complete := d, rtr := r,
           rts := (q = TX_IRQ \<or> rts s)\<rparr>"
    by blast
  moreover from Cons.IH [OF u] obtain b' a' d' r' where
    "u = v\<lparr>input_stream_buffer := b', rx_armed := a', dma_complete := d', rtr := r',
           rts := (TX_IRQ \<in> set w \<or> rts v)\<rparr>"
    by blast
  ultimately have
    "u = s\<lparr>input_stream_buffer := b', rx_armed := a', dma_complete := d', rtr := r',
           rts := (TX_IRQ \<in> set w \<or> (q = TX_IRQ \<or> rts s))\<rparr>"
    by simp
  moreover have "(TX_IRQ \<in> set w \<or> (q = TX_IRQ \<or> rts s)) = (TX_IRQ \<in> set (q # w) \<or> rts s)"
    by auto
  ultimately show ?case
    by (simp only:) blast
qed

lemma take_irqs_keeps:
  assumes "take_irqs w s = Inr u"
  shows "processing_done u = processing_done s" "tx_shadow_buffer_ready u = tx_shadow_buffer_ready s"
    "rx_shadow_buffer_ready u = rx_shadow_buffer_ready s" "rx_ready u = rx_ready s"
    "current_cmd u = current_cmd s" "cypher_log u = cypher_log s" "tx_log u = tx_log s"
    "tx_msg u = tx_msg s" "rx_msg u = rx_msg s" "current_chunk u = current_chunk s"
    "buffered_chunk u = buffered_chunk s" "tx_buffered_buffer u = tx_buffered_buffer s"
    "rts u = (TX_IRQ \<in> set w \<or> rts s)" "results_sent u = results_sent s"
    "in_flight u = in_flight s" "result_message u = result_message s"
    "led_red u = led_red s" "led_green u = led_green s"
  using take_irqs_shape [OF assms]
  by (auto simp: results_sent_def in_flight_def result_message_def)

subsection \<open>The tick and its bodies\<close>

lemma process_encryption_stages:
  "process_encryption plat w s =
     (if current_cmd s \<noteq> ENCRYPT then take_irqs w s
      else (case before_complete plat w s of
              Inl e \<Rightarrow> Inl e
            | Inr u \<Rightarrow> (if complete_guard u then complete_body plat u else Inr u)))"
  by (simp add: process_encryption_def before_complete_def after_dispatch_def after_stage_def
      Let_def split: sum.splits)

lemma dispatch_body_rts:
  "dispatch_body plat s = Inr u \<Longrightarrow> rts u = False \<and> processing_done u = True"
  by (auto simp: pipeline_defs Let_def split: if_splits sum.splits)

lemma dispatch_then_complete:
  assumes "runs_dispatch plat s" and "runs_complete plat w s"
  shows "TX_IRQ \<in> set w"
proof -
  from assms obtain v u where v: "dispatch_body plat (after_stage plat s) = Inr v"
    and u: "take_irqs w v = Inr u" and g: "complete_guard u"
    by (auto simp: runs_dispatch_def runs_complete_def before_complete_def after_dispatch_def
        split: sum.splits)
  from dispatch_body_rts [OF v] take_irqs_keeps(13) [OF u] g show ?thesis
    by (simp add: complete_guard_def)
qed

lemma stage_then_complete:
  assumes "\<not> (processing_done s \<and> rx_shadow_buffer_ready s)"
    and "runs_stage s" and "runs_complete plat w s"
  shows "runs_dispatch plat s"
proof (rule ccontr)
  assume n: "\<not> runs_dispatch plat s"
  from assms(3) obtain v u where c: "current_cmd s = ENCRYPT"
    and v: "after_dispatch plat s = Inr v" and u: "take_irqs w v = Inr u"
    and g: "complete_guard u"
    by (auto simp: runs_complete_def before_complete_def split: sum.splits)
  from n c v have "v = after_stage plat s"
    by (auto simp: runs_dispatch_def after_dispatch_def split: if_splits)
  with assms(1,2) have "processing_done v = False"
    by (auto simp: runs_stage_def after_stage_def stage_guard_def stage_body_def Let_def)
  with take_irqs_keeps(1) [OF u] g show False
    by (simp add: complete_guard_def)
qed


subsection \<open>The invariant of the runs\<close>

lemma after_dispatch_inv:
  "pipeline_inv s \<Longrightarrow> after_dispatch plat s = Inr v \<Longrightarrow> pipeline_inv v"
  by (auto simp: pipeline_inv_def results_sent_def in_flight_def pipeline_defs Let_def
      split: if_splits sum.splits)

lemma take_irqs_inv:
  "pipeline_inv s \<Longrightarrow> take_irqs w s = Inr u \<Longrightarrow> pipeline_inv u"
  using take_irqs_keeps [of w s u] by (auto simp: pipeline_inv_def)

lemma complete_body_inv:
  "pipeline_inv u \<Longrightarrow> complete_guard u \<Longrightarrow> complete_body plat u = Inr t \<Longrightarrow> pipeline_inv t"
  by (auto simp: pipeline_inv_def results_sent_def in_flight_def pipeline_defs Let_def
      split: if_splits sum.splits)

lemma process_encryption_inv:
  assumes "pipeline_inv s" and "process_encryption plat w s = Inr s'"
  shows "pipeline_inv s'"
proof (cases "current_cmd s = ENCRYPT")
  case False
  with assms show ?thesis
    by (auto simp: process_encryption_stages dest: take_irqs_inv)
next
  case True
  with assms(2) obtain v u where v: "after_dispatch plat s = Inr v"
    and u: "take_irqs w v = Inr u"
    and r: "(if complete_guard u then complete_body plat u else Inr u) = Inr s'"
    by (auto simp: process_encryption_stages before_complete_def split: sum.splits)
  have "pipeline_inv u"
    using assms(1) v u after_dispatch_inv take_irqs_inv by blast
  with r show ?thesis
    by (auto split: if_splits dest: complete_body_inv)
qed

lemma client_parse_msg_keeps:
  assumes "client_parse_msg plat n s = Inr s'"
  shows "processing_done s' = processing_done s \<and>
         tx_shadow_buffer_ready s' = tx_shadow_buffer_ready s \<and>
         rx_shadow_buffer_ready s' = rx_shadow_buffer_ready s \<and>
         cypher_log s' = cypher_log s \<and>
         filter is_result (tx_log s') = filter is_result (tx_log s) \<and>
         dma_complete s' = dma_complete s \<and> command_ready s' = command_ready s \<and>
         rtr s' = rtr s"
proof -
  obtain st m k where d:
    "pb_decode plat (take (unat n) (input_stream_buffer s)) (rx_msg s) (encryption_keys s)
       = (st, m, k)"
    using prod_cases3 by blast
  show ?thesis
  proof (cases st)
    case False
    with assms d show ?thesis
      by (auto simp: client_parse_msg_def Let_def)
  next
    case True
    with assms d show ?thesis
      by (cases "which_payload m")
        (auto simp: client_parse_msg_def encrypt_set_keys_and_round_def send_ack_def
          uart_write_packet_def Let_def split: if_splits)
  qed
qed

lemma parse_pending_keeps:
  assumes "parse_pending plat s = Inr s'"
  shows "processing_done s' = processing_done s \<and>
         tx_shadow_buffer_ready s' = tx_shadow_buffer_ready s \<and>
         rx_shadow_buffer_ready s' = rx_shadow_buffer_ready s \<and>
         cypher_log s' = cypher_log s \<and>
         filter is_result (tx_log s') = filter is_result (tx_log s) \<and>
         dma_complete s' = dma_complete s \<and> rtr s' = rtr s"
proof (cases "command_ready s")
  case True
  with assms obtain u where u: "client_parse_msg plat (xfer_len s) s = Inr u"
    and s': "s' = u\<lparr>command_ready := False\<rparr>"
    by (auto simp: parse_pending_def split: sum.splits)
  from client_parse_msg_keeps [OF u] s' show ?thesis
    by simp
next
  case False
  with assms show ?thesis
    by (simp add: parse_pending_def)
qed

lemma parse_pending_inv:
  "pipeline_inv s \<Longrightarrow> parse_pending plat s = Inr s' \<Longrightarrow> pipeline_inv s'"
  using parse_pending_keeps [of plat s s']
  by (auto simp: pipeline_inv_def results_sent_def in_flight_def)

lemma handle_commands_inv:
  assumes "pipeline_inv s" and "handle_commands plat w0 w s = Inr s'"
  shows "pipeline_inv s'"
proof -
  from assms(2) obtain s1 s2 where s1: "parse_pending plat s = Inr s1"
    and s2: "take_irqs w0 s1 = Inr s2" and p: "process_encryption plat w s2 = Inr s'"
    by (auto simp: handle_commands_def split: sum.splits)
  from assms(1) s1 have "pipeline_inv s1" by (rule parse_pending_inv)
  then have "pipeline_inv s2" using s2 by (rule take_irqs_inv)
  then show ?thesis using p by (rule process_encryption_inv)
qed

lemma step_inv:
  assumes "pipeline_inv s" and "step plat e s = Inr s'"
  shows "pipeline_inv s'"
proof (cases e)
  case (IRQ q)
  with assms have "take_irqs [q] s = Inr s'"
    by simp
  with assms(1) show ?thesis
    by (rule take_irqs_inv)
next
  case HANDLE_UART
  with assms show ?thesis
    by (auto simp: pipeline_inv_def results_sent_def in_flight_def handle_uart_def
        HAL_UART_Receive_DMA_def Let_def split: if_splits)
next
  case (HANDLE_COMMANDS w0 w)
  with assms show ?thesis
    by (auto dest: handle_commands_inv)
qed

lemma exec_inv:
  "pipeline_inv s \<Longrightarrow> exec plat es s = Inr s' \<Longrightarrow> pipeline_inv s'"
proof (induction es arbitrary: s)
  case Nil
  then show ?case by simp
next
  case (Cons e es)
  then show ?case
    by (auto split: sum.splits dest: step_inv)
qed

lemma boot_inv: "pipeline_inv boot"
  by (simp add: pipeline_inv_def results_sent_def in_flight_def boot_def init_pb_def
      init_uart_pb_def client_rx_command_len_def client_clear_output_stream_def zero_state_def
      HAL_UART_Receive_DMA_def)

lemma tick_state_inv:
  "exec plat es boot = Inr s \<Longrightarrow> parse_pending plat s = Inr t0 \<Longrightarrow> take_irqs w0 t0 = Inr t \<Longrightarrow>
   pipeline_inv t"
  using boot_inv exec_inv parse_pending_inv take_irqs_inv by blast

subsection \<open>The Complete body\<close>


subsection \<open>The flag rtr and the receptions waiting to be served\<close>

lemma take_irq_rtr:
  assumes "take_irq q s = Inr u" and "dma_complete s \<longrightarrow> rtr s = b"
  shows "dma_complete u \<longrightarrow> rtr u = (b \<and> \<not> completes q s)"
proof (cases q)
  case (RX_IRQ dat)
  with assms show ?thesis
    by (auto simp: HAL_UART_RxCpltCallback_def split: if_splits)
next
  case TX_IRQ
  with assms show ?thesis
    by (auto simp: HAL_UART_TxCpltCallback_def)
qed

lemma take_irqs_rtr:
  "take_irqs w s = Inr u \<Longrightarrow> dma_complete s \<longrightarrow> rtr s = b \<Longrightarrow>
   dma_complete u \<longrightarrow> rtr u = irqs_staged w s b"
proof (induction w arbitrary: s b)
  case Nil
  then show ?case by simp
next
  case (Cons q w)
  from Cons.prems(1) obtain v where v: "take_irq q s = Inr v" and u: "take_irqs w v = Inr u"
    by (auto split: sum.splits)
  from take_irq_rtr [OF v Cons.prems(2)] have "dma_complete v \<longrightarrow> rtr v = (b \<and> \<not> completes q s)" .
  from Cons.IH [OF u this] v show ?case
    by simp
qed

lemma after_dispatch_rtr:
  assumes "after_dispatch plat s = Inr v"
  shows "dma_complete v = dma_complete s \<and> rtr v = (stage_guard s \<or> rtr s)"
  using assms
  by (auto simp: pipeline_defs Let_def split: if_splits sum.splits)

lemma complete_body_rtr:
  "complete_body plat u = Inr t \<Longrightarrow> dma_complete t = dma_complete u \<and> rtr t = rtr u"
  by (auto simp: pipeline_defs Let_def split: if_splits sum.splits)

lemma tick_rtr:
  assumes "process_encryption plat w s = Inr s'" and "dma_complete s \<longrightarrow> rtr s = b"
  shows "dma_complete s' \<longrightarrow> rtr s' = tick_staged plat w s b"
proof (cases "current_cmd s = ENCRYPT")
  case False
  with assms(1) have "take_irqs w s = Inr s'"
    by (simp add: process_encryption_stages)
  from take_irqs_rtr [OF this assms(2)] False show ?thesis
    by (simp add: tick_staged_def)
next
  case True
  with assms(1) obtain v u where v: "after_dispatch plat s = Inr v"
    and u: "take_irqs w v = Inr u"
    and r: "(if complete_guard u then complete_body plat u else Inr u) = Inr s'"
    by (auto simp: process_encryption_stages before_complete_def split: sum.splits)
  from after_dispatch_rtr [OF v] assms(2) have "dma_complete v \<longrightarrow> rtr v = (b \<or> stage_guard s)"
    by auto
  from take_irqs_rtr [OF u this] have "dma_complete u \<longrightarrow> rtr u = irqs_staged w v (b \<or> stage_guard s)" .
  moreover from r have "dma_complete s' = dma_complete u \<and> rtr s' = rtr u"
    by (auto split: if_splits dest: complete_body_rtr)
  ultimately show ?thesis
    using True v by (simp add: tick_staged_def)
qed

lemma handle_commands_rtr:
  assumes "handle_commands plat w0 w s = Inr s'" and "dma_complete s \<longrightarrow> rtr s = b"
  shows "dma_complete s' \<longrightarrow> rtr s' = staged_step plat (HANDLE_COMMANDS w0 w) s b"
proof -
  from assms(1) obtain s1 s2 where s1: "parse_pending plat s = Inr s1"
    and s2: "take_irqs w0 s1 = Inr s2" and p: "process_encryption plat w s2 = Inr s'"
    by (auto simp: handle_commands_def split: sum.splits)
  from parse_pending_keeps [OF s1] assms(2) have "dma_complete s1 \<longrightarrow> rtr s1 = b"
    by simp
  from take_irqs_rtr [OF s2 this] have "dma_complete s2 \<longrightarrow> rtr s2 = irqs_staged w0 s1 b" .
  from tick_rtr [OF p this] s1 s2 show ?thesis
    by simp
qed

lemma step_rtr:
  assumes "step plat e s = Inr s'" and "dma_complete s \<longrightarrow> rtr s = b"
  shows "dma_complete s' \<longrightarrow> rtr s' = staged_step plat e s b"
proof (cases e)
  case (IRQ q)
  with assms take_irq_rtr [of q s s' b] show ?thesis
    by simp
next
  case HANDLE_UART
  with assms show ?thesis
    by (auto simp: handle_uart_def HAL_UART_Receive_DMA_def Let_def split: if_splits)
next
  case (HANDLE_COMMANDS w0 w)
  with assms handle_commands_rtr [of plat w0 w s s' b] show ?thesis
    by simp
qed

lemma exec_rtr:
  "exec plat es s = Inr s' \<Longrightarrow> dma_complete s \<longrightarrow> rtr s = b \<Longrightarrow>
   dma_complete s' \<longrightarrow> rtr s' = staged_since_rx plat es s b"
proof (induction es arbitrary: s b)
  case Nil
  then show ?case by simp
next
  case (Cons e es)
  from Cons.prems(1) obtain v where v: "step plat e s = Inr v" and r: "exec plat es v = Inr s'"
    by (auto split: sum.splits)
  from step_rtr [OF v Cons.prems(2)] have "dma_complete v \<longrightarrow> rtr v = staged_step plat e s b" .
  from Cons.IH [OF r this] v show ?case
    by simp
qed

subsection \<open>Small facts for the concrete runs\<close>

lemma replicate_small: "replicate 4 x = [x, x, x, x]" "replicate 2 x = [x, x]"
  by (simp_all add: eval_nat_numeral)


section \<open>The claims\<close>

subsection \<open>C1: the bodies that one tick executes\<close>

text \<open>
  The claim C1, as stated, fails: in the tick that follows the parsing of the first
  \<^verbatim>\<open>RawData\<close> frame of a run, the Stage body and the Dispatch body both execute: the
  chunk is staged, acknowledged and encrypted in that one tick. When the
  transmit-complete interrupt of the acknowledgement is taken during the cipher call, the
  Complete body executes too, and the result frame leaves in the same tick.
\<close>

theorem tick_runs_several_bodies:
  "case exec demo_platform (raw_frame 0 0) boot of
     Inl e \<Rightarrow> False
   | Inr s \<Rightarrow>
       (case parse_pending demo_platform s of
          Inl e \<Rightarrow> False
        | Inr t \<Rightarrow>
            runs_stage t \<and> runs_dispatch demo_platform t \<and>
            bodies_run demo_platform [] t = 2 \<and> bodies_run demo_platform [TX_IRQ] t = 3 \<and>
            (case process_encryption demo_platform [] t of
               Inl e \<Rightarrow> False
             | Inr t' \<Rightarrow>
                 buffered_chunk t' \<noteq> buffered_chunk t \<and> length (cypher_log t') = 1 \<and>
                 length (tx_log t') = 1) \<and>
            (case process_encryption demo_platform [TX_IRQ] t of
               Inl e \<Rightarrow> False
             | Inr t' \<Rightarrow>
                 buffered_chunk t' \<noteq> buffered_chunk t \<and> length (cypher_log t') = 1 \<and>
                 length (tx_log t') = 2 \<and> results_sent t' = 1))"
  by (simp add: run_defs pipeline_defs)

text \<open>
  C1, amended: on every tick of every run, whatever interrupts are taken before and
  inside it, the three bodies are evaluated in the fixed order Stage, Dispatch, Complete,
  each at most once and each on the state its predecessor leaves; more than one body can
  execute in a tick. The Complete body executes in the same tick as the Stage body only
  when the Dispatch body executes between them, and in the same tick as the Dispatch body
  only when a transmit-complete interrupt is taken in between (\<^verbatim>\<open>send_ack\<close> has cleared
  \<open>rts\<close>). So a tick with no such interrupt executes at most two bodies, and when it
  executes two they are Stage and Dispatch.
\<close>

theorem tick_bodies:
  assumes "exec plat es boot = Inr s" and "parse_pending plat s = Inr t0"
    and "take_irqs w0 t0 = Inr t"
  shows "process_encryption plat w t =
           (if current_cmd t \<noteq> ENCRYPT then take_irqs w t
            else (case after_dispatch plat t of
                    Inl e \<Rightarrow> Inl e
                  | Inr v \<Rightarrow>
                      (case take_irqs w v of
                         Inl e \<Rightarrow> Inl e
                       | Inr u \<Rightarrow> (if complete_guard u then complete_body plat u else Inr u)))) \<and>
         (runs_complete plat w t \<and> runs_stage t \<longrightarrow> runs_dispatch plat t) \<and>
         (runs_complete plat w t \<and> runs_dispatch plat t \<longrightarrow> TX_IRQ \<in> set w) \<and>
         (TX_IRQ \<notin> set w \<longrightarrow> bodies_run plat w t \<le> 2) \<and>
         (bodies_run plat w t = 2 \<and> TX_IRQ \<notin> set w \<longrightarrow> runs_stage t \<and> runs_dispatch plat t)"
proof -
  have "pipeline_inv t"
    using assms by (rule tick_state_inv)
  then have i: "\<not> (processing_done t \<and> rx_shadow_buffer_ready t)"
    by (auto simp: pipeline_inv_def)
  have a: "runs_dispatch plat t" if "runs_complete plat w t" "runs_stage t"
    using i that(2,1) by (rule stage_then_complete)
  have b: "TX_IRQ \<in> set w" if "runs_complete plat w t" "runs_dispatch plat t"
    using that(2,1) by (rule dispatch_then_complete)
  have c: "process_encryption plat w t =
           (if current_cmd t \<noteq> ENCRYPT then take_irqs w t
            else (case after_dispatch plat t of
                    Inl e \<Rightarrow> Inl e
                  | Inr v \<Rightarrow>
                      (case take_irqs w v of
                         Inl e \<Rightarrow> Inl e
                       | Inr u \<Rightarrow> (if complete_guard u then complete_body plat u else Inr u))))"
    by (simp add: process_encryption_stages before_complete_def split: sum.splits)
  from a b have "TX_IRQ \<notin> set w \<longrightarrow> bodies_run plat w t \<le> 2"
    and "bodies_run plat w t = 2 \<and> TX_IRQ \<notin> set w \<longrightarrow> runs_stage t \<and> runs_dispatch plat t"
    by (auto simp: bodies_run_def)
  with a b c show ?thesis
    by blast
qed

theorem tick_bodies_witness:
  "\<exists>s t. exec demo_platform (raw_frame 0 0) boot = Inr s \<and>
     parse_pending demo_platform s = Inr t \<and> take_irqs [] t = Inr t \<and>
     runs_stage t \<and> runs_dispatch demo_platform t \<and>
     \<not> runs_complete demo_platform [] t \<and> bodies_run demo_platform [] t = 2 \<and>
     runs_complete demo_platform [TX_IRQ] t \<and> TX_IRQ \<in> set [TX_IRQ]"
proof -
  define s where "s = projr (exec demo_platform (raw_frame 0 0) boot)"
  define t where "t = projr (parse_pending demo_platform s)"
  have 1: "exec demo_platform (raw_frame 0 0) boot = Inr s"
    unfolding s_def by (simp add: run_defs)
  have 2: "parse_pending demo_platform s = Inr t"
    unfolding t_def s_def by (simp add: run_defs)
  have 3: "take_irqs [] t = Inr t"
    by simp
  have 4: "runs_stage t" "runs_dispatch demo_platform t" "bodies_run demo_platform [] t = 2"
    "runs_complete demo_platform [TX_IRQ] t"
    unfolding t_def s_def by (simp_all add: run_defs pipeline_defs)
  from tick_bodies [OF 1 2 3, of "[]"] 1 2 3 4 show ?thesis
    by auto
qed

subsection \<open>C2: a length header beyond the capacity of the buffer\<close>




subsection \<open>C3: the Complete stage\<close>



subsection \<open>C4: an EncryptionParams message\<close>

text \<open>
  C4: for every successfully decoded \<^verbatim>\<open>EncryptionParams\<close> message (the stream taking an
  \<^verbatim>\<open>Ack\<close> message without error), \<^verbatim>\<open>client_parse_msg\<close> returns, having installed the round
  count and the two 64-bit key halves: the first is the concatenation of the first two
  words of the key array, the second that of the last two, the later word of each pair in
  the upper 32 bits. It has handed exactly one packet, an \<^verbatim>\<open>Ack\<close>, to the UART and set
  \<open>current_cmd = NONE\<close>.
\<close>

theorem params_installed_and_acked:
  assumes "pb_decode plat (take (unat n) (input_stream_buffer s)) (rx_msg s) (encryption_keys s)
             = (True, m, k)"
    and "which_payload m = MyMessage_encryption_params_tag"
    and "\<forall>a. which_payload a = MyMessage_ack_tag \<longrightarrow> o_stream_ok plat [PB_message a]"
  shows "\<exists>s' a. client_parse_msg plat n s = Inr s' \<and>
           encryption_keys s' = k \<and> encryption_rounds s' = nb_rounds m \<and>
           s_keys s' = [CONCAT_KEYS (k ! 1) (k ! 0), CONCAT_KEYS (k ! 3) (k ! 2)] \<and>
           unat (s_keys s' ! 0) = unat (k ! 1) * 2 ^ 32 + unat (k ! 0) \<and>
           unat (s_keys s' ! 1) = unat (k ! 3) * 2 ^ 32 + unat (k ! 2) \<and>
           s_nbrounds s' = nb_rounds m \<and>
           tx_log s' = tx_log s @ [[PB_message a]] \<and> which_payload a = MyMessage_ack_tag \<and>
           current_cmd s' = NONE"
  using assms
  by (simp add: client_parse_msg_def encrypt_set_keys_and_round_def send_ack_def
      uart_write_packet_def Let_def unat_CONCAT_KEYS)

theorem params_installed_and_acked_witness:
  "\<exists>s m k. s = boot\<lparr>input_stream_buffer := [1, 1, 2, 3, 4, 10]\<rparr> \<and>
     pb_decode demo_platform (take (unat (6 :: u32)) (input_stream_buffer s)) (rx_msg s)
       (encryption_keys s) = (True, m, k) \<and>
     which_payload m = MyMessage_encryption_params_tag \<and> k = [1, 2, 3, 4] \<and> nb_rounds m = 10 \<and>
     (\<exists>s'. client_parse_msg demo_platform 6 s = Inr s' \<and>
        s_keys s' = [0x0000000200000001, 0x0000000400000003] \<and> s_nbrounds s' = 10 \<and>
        length (tx_log s') = 1 \<and> current_cmd s' = NONE)"
proof -
  define s where "s = boot\<lparr>input_stream_buffer := [1, 1, 2, 3, 4, 10]\<rparr>"
  define m where "m = (rx_msg s)\<lparr>which_payload := MyMessage_encryption_params_tag, nb_rounds := 10\<rparr>"
  have d: "pb_decode demo_platform (take (unat (6 :: u32)) (input_stream_buffer s)) (rx_msg s)
             (encryption_keys s) = (True, m, [1, 2, 3, 4])"
    by (simp add: s_def m_def run_defs)
  have w: "which_payload m = MyMessage_encryption_params_tag" and r: "nb_rounds m = 10"
    by (simp_all add: m_def)
  have ok: "\<forall>a. which_payload a = MyMessage_ack_tag \<longrightarrow> o_stream_ok demo_platform [PB_message a]"
    by (simp add: demo_platform_def)
  from params_installed_and_acked [OF d w ok] obtain s' a where
    "client_parse_msg demo_platform 6 s = Inr s'"
    "s_keys s' = [CONCAT_KEYS ([1, 2, 3, 4] ! 1) ([1, 2, 3, 4] ! 0),
                  CONCAT_KEYS ([1, 2, 3, 4] ! 3) ([1, 2, 3, 4] ! 2)]"
    "s_nbrounds s' = nb_rounds m" "tx_log s' = tx_log s @ [[PB_message a]]"
    "current_cmd s' = NONE"
    by blast
  moreover have "tx_log s = []"
    by (simp add: s_def run_defs)
  moreover have "CONCAT_KEYS 2 1 = 0x0000000200000001" "CONCAT_KEYS 4 3 = 0x0000000400000003"
    by (simp_all add: CONCAT_KEYS_def LS32_MASK32_MSB_def MASK32_LSB_def)
  ultimately show ?thesis
    using d w r s_def by auto
qed

subsection \<open>C5: a frame that fails to decode\<close>

text \<open>
  The claim C5, as stated, fails: a frame that does not decode, arriving while the command
  is \<open>ENCRYPT\<close>, leaves \<open>current_cmd\<close> at \<open>ENCRYPT\<close>; it is not set to \<open>NONE\<close>. Nor is
  the frame discarded whole: what the decoder wrote before it failed stays in \<^verbatim>\<open>rx_msg\<close>
  and in the key array (here two key words and the selector of the message).
\<close>

theorem decode_failure_counterexample:
  "case exec demo_platform
          (raw_frame 0 0 @ [HANDLE_COMMANDS [] [], IRQ (RX_IRQ [3, 0, 0, 0]), HANDLE_UART,
                            IRQ (RX_IRQ [1, 9, 9]), HANDLE_UART]) boot of
     Inl e \<Rightarrow> False
   | Inr s \<Rightarrow>
       fst (pb_decode demo_platform (take (unat (xfer_len s)) (input_stream_buffer s))
              (rx_msg s) (encryption_keys s)) = False \<and>
       (case client_parse_msg demo_platform (xfer_len s) s of
          Inl e \<Rightarrow> False
        | Inr s' \<Rightarrow>
            current_cmd s = ENCRYPT \<and> current_cmd s' = ENCRYPT \<and> current_cmd s' \<noteq> NONE \<and>
            encryption_keys s = [0, 0, 0, 0] \<and> encryption_keys s' = [9, 9, 0, 0] \<and>
            which_payload (rx_msg s) = MyMessage_raw_data_tag \<and>
            which_payload (rx_msg s') = MyMessage_encryption_params_tag)"
  by (simp add: run_defs pipeline_defs replicate_small)

text \<open>
  C5, amended: for every frame whose decoding fails, \<^verbatim>\<open>client_parse_msg\<close> returns at once
  and sends no message. It changes three things only: \<^verbatim>\<open>rx_msg\<close> and the key array
  \<^verbatim>\<open>enc_p.encryption_keys\<close> hold what the decoder left in them, and the green LED is
  toggled. \<open>current_cmd\<close> keeps its value (it is not set to \<open>NONE\<close>), and so do the
  pipeline flags, the chunk descriptors, the round count and the keys installed in the
  cipher.
\<close>

theorem decode_failure_sends_nothing:
  assumes "pb_decode plat (take (unat n) (input_stream_buffer s)) (rx_msg s) (encryption_keys s)
             = (False, m, k)"
  shows "client_parse_msg plat n s =
           Inr (s\<lparr>rx_msg := m, encryption_keys := k, led_green := \<not> led_green s\<rparr>) \<and>
         (\<exists>s'. client_parse_msg plat n s = Inr s' \<and>
            rx_msg s' = m \<and> encryption_keys s' = k \<and> tx_log s' = tx_log s \<and>
            current_cmd s' = current_cmd s \<and> rx_ready s' = rx_ready s \<and>
            processing_done s' = processing_done s \<and>
            rx_shadow_buffer_ready s' = rx_shadow_buffer_ready s \<and>
            tx_shadow_buffer_ready s' = tx_shadow_buffer_ready s \<and>
            s_keys s' = s_keys s \<and> s_nbrounds s' = s_nbrounds s \<and>
            encryption_rounds s' = encryption_rounds s \<and>
            buffered_chunk s' = buffered_chunk s \<and> current_chunk s' = current_chunk s)"
  using assms
  by (simp add: client_parse_msg_def Let_def)

theorem decode_failure_sends_nothing_witness:
  "\<exists>s. s = boot\<lparr>input_stream_buffer := [1, 9, 9], current_cmd := ENCRYPT\<rparr> \<and>
     pb_decode demo_platform (take (unat (3 :: u32)) (input_stream_buffer s)) (rx_msg s)
       (encryption_keys s)
       = (False, (rx_msg s)\<lparr>which_payload := MyMessage_encryption_params_tag\<rparr>, [9, 9, 0, 0]) \<and>
     (\<exists>s'. client_parse_msg demo_platform 3 s = Inr s' \<and> tx_log s' = [] \<and>
        current_cmd s' = ENCRYPT \<and> rx_ready s' = False \<and> encryption_keys s' = [9, 9, 0, 0] \<and>
        s_keys s' = [0, 0])"
proof -
  define s where "s = boot\<lparr>input_stream_buffer := [1, 9, 9], current_cmd := ENCRYPT\<rparr>"
  have f: "pb_decode demo_platform (take (unat (3 :: u32)) (input_stream_buffer s)) (rx_msg s)
       (encryption_keys s)
       = (False, (rx_msg s)\<lparr>which_payload := MyMessage_encryption_params_tag\<rparr>, [9, 9, 0, 0])"
    by (simp add: s_def run_defs replicate_small)
  have "tx_log s = []" "current_cmd s = ENCRYPT" "rx_ready s = False" "s_keys s = [0, 0]"
    by (simp_all add: s_def run_defs replicate_small)
  with decode_failure_sends_nothing [OF f] f s_def show ?thesis
    by auto
qed

subsection \<open>C6: the flag rtr when a receive is armed\<close>

text \<open>
  The claim C6, as stated, fails. Two frames are received, each after the acknowledgement
  of the one before; the header of a third arrives while the second still waits to be
  staged, and \<^verbatim>\<open>handle_commands\<close> runs before \<^verbatim>\<open>handle_uart\<close>: Stage sets \<open>rtr\<close> and
  clears \<open>rx_shadow_buffer_ready\<close>, and the next \<^verbatim>\<open>handle_uart\<close> arms the receive of the
  third frame in that state.
\<close>

theorem receive_armed_with_rtr_set:
  "case exec demo_platform
          (raw_frame 0 0 @ [HANDLE_COMMANDS [] []] @ raw_frame 0 1 @
           [HANDLE_COMMANDS [] [], IRQ TX_IRQ, HANDLE_COMMANDS [] [], IRQ (RX_IRQ [6, 0, 0, 0]),
            HANDLE_COMMANDS [] []]) boot of
     Inl e \<Rightarrow> False
   | Inr s \<Rightarrow>
       arms_receive s \<and> rtr s = True \<and> rx_shadow_buffer_ready s = False \<and>
       rx_armed s = None \<and> rx_armed (handle_uart s) = Some 6 \<and>
       chunk_no (buffered_chunk s) = 1 \<and> length (tx_log s) = 2"
  by (simp add: run_defs pipeline_defs)

text \<open>
  C6, amended: in every run, at every point at which \<^verbatim>\<open>handle_uart\<close> is about to arm a
  receive, \<open>rtr\<close> is asserted exactly when the Stage body has executed since the reception
  being served completed. So it is never the case that \<open>rtr\<close> is asserted while
  \<open>rx_shadow_buffer_ready\<close> is false unless a chunk has been staged in between; Stage
  asserts the one as it clears the other, and nothing reads \<open>rtr\<close> before the receive is
  armed, which deasserts it. The first receive, armed by \<^verbatim>\<open>client_rx_command_len\<close>,
  finds \<open>rtr\<close> asserted and \<open>rx_shadow_buffer_ready\<close> true.
\<close>

theorem receive_armed_rtr:
  assumes "exec plat es boot = Inr s" and "arms_receive s"
  shows "rtr s = staged_since_rx plat es boot False \<and>
         (\<not> staged_since_rx plat es boot False
            \<longrightarrow> \<not> (rtr s = True \<and> rx_shadow_buffer_ready s = False)) \<and>
         rtr (handle_uart s) = False \<and>
         rtr (init_pb (init_uart_pb zero_state)) = True \<and>
         rx_shadow_buffer_ready (init_pb (init_uart_pb zero_state)) = True"
proof -
  have "dma_complete boot \<longrightarrow> rtr boot = False"
    by (simp add: boot_def client_rx_command_len_def init_pb_def init_uart_pb_def
        client_clear_output_stream_def HAL_UART_Receive_DMA_def)
  from exec_rtr [OF assms(1) this] assms(2) have "rtr s = staged_since_rx plat es boot False"
    by (simp add: arms_receive_def)
  moreover have "rtr (handle_uart s) = False"
    using assms(2)
    by (auto simp: arms_receive_def handle_uart_def HAL_UART_Receive_DMA_def Let_def)
  moreover have "rtr (init_pb (init_uart_pb zero_state)) = True"
    "rx_shadow_buffer_ready (init_pb (init_uart_pb zero_state)) = True"
    by (simp_all add: init_pb_def init_uart_pb_def client_clear_output_stream_def)
  ultimately show ?thesis
    by simp
qed

theorem receive_armed_rtr_witness:
  "\<exists>s. exec demo_platform (raw_frame 0 0 @ [HANDLE_COMMANDS [] [], IRQ (RX_IRQ [6, 0, 0, 0])]) boot
          = Inr s \<and>
     arms_receive s \<and> rx_shadow_buffer_ready s = False \<and>
     staged_since_rx demo_platform
       (raw_frame 0 0 @ [HANDLE_COMMANDS [] [], IRQ (RX_IRQ [6, 0, 0, 0])]) boot False = False \<and>
     rtr s = False \<and> rx_armed (handle_uart s) = Some 6"
proof -
  define s where
    "s = projr (exec demo_platform
                  (raw_frame 0 0 @ [HANDLE_COMMANDS [] [], IRQ (RX_IRQ [6, 0, 0, 0])]) boot)"
  have 2: "exec demo_platform (raw_frame 0 0 @ [HANDLE_COMMANDS [] [], IRQ (RX_IRQ [6, 0, 0, 0])])
             boot = Inr s"
    unfolding s_def by (simp add: run_defs pipeline_defs)
  have 3: "arms_receive s" and 4: "rx_shadow_buffer_ready s = False"
    and 5: "rx_armed (handle_uart s) = Some 6"
    unfolding s_def by (simp_all add: run_defs pipeline_defs)
  have 6: "staged_since_rx demo_platform
       (raw_frame 0 0 @ [HANDLE_COMMANDS [] [], IRQ (RX_IRQ [6, 0, 0, 0])]) boot False = False"
    by (simp add: run_defs pipeline_defs tick_staged_def)
  from receive_armed_rtr [OF 2 3] 2 3 4 5 6 show ?thesis
    by auto
qed

subsection \<open>C7: the length programmed for the hardware transfer\<close>

text \<open>
  The claim C7, as stated, fails: for a length of 64 bytes, a multiple of 8,
  \<^verbatim>\<open>encrypt_encrypt\<close> programs a transfer of 72 bytes, not of 64.
\<close>


theorem encrypt_len_counterexample:
  "case encrypt_encrypt demo_platform 0x34002000 0x34000000 64 0x1000 boot of
     Inl e \<Rightarrow> False
   | Inr s \<Rightarrow> map len (cypher_log s) = [72] \<and> (64 :: nat) mod 8 = 0"
  by (simp add: encrypt_encrypt_def run_defs)

text \<open>
  C7, amended: for every call of \<^verbatim>\<open>encrypt_encrypt\<close> whose three addresses are 8-byte
  aligned, the length programmed for the hardware transfer is \<^verbatim>\<open>((len / 8) + 1) * 8\<close> in
  32-bit arithmetic. For \<open>len < 2^32 - 8\<close> that is the least multiple of 8 strictly
  greater than \<open>len\<close>: it exceeds \<open>len\<close> by at most 8, and by exactly 8 when \<open>len\<close> is
  already a multiple of 8. For larger \<open>len\<close> it wraps to 0.
\<close>

theorem encrypt_programs_len_aligned:
  assumes "src mod 8 = 0" and "dst mod 8 = 0" and "real_life_address mod 8 = 0"
  shows "\<exists>s' cfg. encrypt_encrypt plat dst src l real_life_address s = Inr s' \<and>
           cypher_log s' = cypher_log s @ [cfg] \<and> len cfg = len_aligned l \<and>
           (if unat l < 2 ^ 32 - 8
            then unat (len cfg) = (unat l div 8 + 1) * 8 \<and> unat (len cfg) mod 8 = 0 \<and>
                 unat l < unat (len cfg) \<and> unat (len cfg) \<le> unat l + 8 \<and>
                 (if unat l mod 8 = 0 then unat (len cfg) = unat l + 8 else True)
            else len cfg = 0)"
proof (cases "unat l < 2 ^ 32 - 8")
  case True
  then show ?thesis
    using assms round_up_nat [of "unat l"]
    by (simp add: encrypt_encrypt_def Let_def len_aligned_unat del: mult_Suc add_Suc)
next
  case False
  then show ?thesis
    using assms by (auto simp: encrypt_encrypt_def Let_def len_aligned_wraps)
qed

theorem encrypt_programs_len_aligned_witness:
  "(0x34000000 :: u32) mod 8 = 0 \<and> (0x34002000 :: u32) mod 8 = 0 \<and> (0x1000 :: u32) mod 8 = 0 \<and>
   (\<exists>s' cfg. encrypt_encrypt demo_platform 0x34002000 0x34000000 70 0x1000 boot = Inr s' \<and>
      cypher_log s' = cypher_log boot @ [cfg] \<and> len cfg = len_aligned 70 \<and>
      unat (len cfg) = 72)"
proof -
  have a: "(0x34000000 :: u32) mod 8 = 0" and b: "(0x34002000 :: u32) mod 8 = 0"
    and c: "(0x1000 :: u32) mod 8 = 0"
    by simp_all
  from encrypt_programs_len_aligned [OF a b c, of demo_platform 70 boot]
  show ?thesis
    using a b c by auto
qed

subsection \<open>C8: after the last chunk\<close>




subsection \<open>C9: the fields that client\_send\_raw\_data writes\<close>

text \<open>
  The claim C9, as stated, fails: called for a chunk of status \<^verbatim>\<open>LAST_CHUNK\<close>,
  \<^verbatim>\<open>client_send_raw_data\<close> writes three fields; no \<^verbatim>\<open>base_address\<close> field is among them,
  and the status written is not the one it was called with.
\<close>

theorem client_send_raw_data_counterexample:
  "case client_send_raw_data demo_platform (status_code STATUS_LAST_CHUNK) 7 [1, 2, 3] 3 boot of
     Inl e \<Rightarrow> False
   | Inr s \<Rightarrow>
       tx_log s =
         [[PB_tag PB_WT_VARINT RawData_stat_tag, PB_varint 0,
           PB_tag PB_WT_32BIT RawData_chunk_no_tag, PB_fixed32 7,
           PB_tag PB_WT_STRING RawData_data_tag, PB_string [1, 2, 3]]] \<and>
       PB_tag PB_WT_32BIT RawData_base_address_tag \<notin> set (o_stream s) \<and>
       PB_varint (ucast (status_code STATUS_LAST_CHUNK)) \<notin> set (o_stream s)"
  by (simp add: client_send_raw_data_def uart_write_packet_def run_defs)

text \<open>
  C9, amended: for every call of \<^verbatim>\<open>client_send_raw_data\<close> (the stream taking the calls
  without error), the fields are appended to the stream with tag-and-wire-type prefixes in
  the fixed order status (varint), chunk number (fixed 32-bit), data (length-prefixed
  bytes, the first \<open>bufsize\<close> bytes at \<open>ptr\<close>); there is no \<^verbatim>\<open>base_address\<close> field. The
  stream is then handed to the UART as one packet.
\<close>

theorem client_send_raw_data_fields:
  assumes "o_stream_ok plat
             (o_stream s @
              [PB_tag PB_WT_VARINT RawData_stat_tag,
               PB_varint (ucast (status_code STATUS_FIRST_CHUNK)),
               PB_tag PB_WT_32BIT RawData_chunk_no_tag, PB_fixed32 chunk_number,
               PB_tag PB_WT_STRING RawData_data_tag, PB_string (take (unat bufsize) ptr)])"
  shows "\<exists>s' v. client_send_raw_data plat status chunk_number ptr bufsize s = Inr s' \<and>
           o_stream s' = o_stream s @
             [PB_tag PB_WT_VARINT RawData_stat_tag, PB_varint v,
              PB_tag PB_WT_32BIT RawData_chunk_no_tag, PB_fixed32 chunk_number,
              PB_tag PB_WT_STRING RawData_data_tag, PB_string (take (unat bufsize) ptr)] \<and>
           tx_log s' = tx_log s @ [o_stream s'] \<and> rts s' = False"
  using assms
  by (simp add: client_send_raw_data_def uart_write_packet_def Let_def)

theorem client_send_raw_data_fields_witness:
  "o_stream_ok demo_platform
     (o_stream boot @
      [PB_tag PB_WT_VARINT RawData_stat_tag,
       PB_varint (ucast (status_code STATUS_FIRST_CHUNK)),
       PB_tag PB_WT_32BIT RawData_chunk_no_tag, PB_fixed32 7,
       PB_tag PB_WT_STRING RawData_data_tag, PB_string (take (unat (2 :: u32)) [1, 2, 3])]) \<and>
   (\<exists>s' v. client_send_raw_data demo_platform 1 7 [1, 2, 3] 2 boot = Inr s' \<and>
      o_stream s' =
        [PB_tag PB_WT_VARINT RawData_stat_tag, PB_varint v,
         PB_tag PB_WT_32BIT RawData_chunk_no_tag, PB_fixed32 7,
         PB_tag PB_WT_STRING RawData_data_tag, PB_string [1, 2]] \<and>
      tx_log s' = [o_stream s'])"
proof -
  have ok: "o_stream_ok demo_platform
     (o_stream boot @
      [PB_tag PB_WT_VARINT RawData_stat_tag,
       PB_varint (ucast (status_code STATUS_FIRST_CHUNK)),
       PB_tag PB_WT_32BIT RawData_chunk_no_tag, PB_fixed32 7,
       PB_tag PB_WT_STRING RawData_data_tag, PB_string (take (unat (2 :: u32)) [1, 2, 3])])"
    by (simp add: demo_platform_def)
  have b: "o_stream boot = []" "tx_log boot = []"
    by (simp_all add: run_defs)
  from client_send_raw_data_fields [OF ok, of 1] show ?thesis
    using ok b by auto
qed

subsection \<open>C10: one result frame for each dispatched chunk\<close>

text \<open>
  C10: in every run, the result frames transmitted and the chunk in flight (encrypted,
  not yet transmitted) add up to the chunks given to the cipher: a chunk's result frame is
  transmitted at most once. A tick in which the Complete body executes transmits one
  result frame and leaves \<open>processing_done\<close> false; and a tick with \<open>rts\<close> true, no
  chunk awaiting its transmission and no new dispatch does nothing of its own: it
  transmits nothing and leaves the flags as they were, and with no interrupt taken
  inside it the whole state.
\<close>

theorem result_sent_once:
  assumes "exec plat es boot = Inr s" and "parse_pending plat s = Inr t0"
    and "take_irqs w0 t0 = Inr t"
  shows "results_sent s + in_flight s = length (cypher_log s) \<and>
         results_sent s \<le> length (cypher_log s) \<and>
         (\<forall>w t'. runs_complete plat w t \<and> process_encryption plat w t = Inr t'
            \<longrightarrow> processing_done t' = False \<and> results_sent t' = results_sent t + 1) \<and>
         (processing_done t = False \<and> rts t = True \<and> \<not> runs_dispatch plat t
            \<longrightarrow> process_encryption plat [] t = Inr t \<and>
                (\<forall>w. process_encryption plat w t = take_irqs w t) \<and>
                (\<forall>w t'. process_encryption plat w t = Inr t'
                   \<longrightarrow> tx_log t' = tx_log t \<and> rx_ready t' = rx_ready t \<and>
                       processing_done t' = processing_done t \<and>
                       rx_shadow_buffer_ready t' = rx_shadow_buffer_ready t \<and>
                       tx_shadow_buffer_ready t' = tx_shadow_buffer_ready t))"
proof -
  have s: "pipeline_inv s"
    using boot_inv exec_inv assms(1) by blast
  have t: "pipeline_inv t"
    using assms by (rule tick_state_inv)
  have 1: "results_sent s + in_flight s = length (cypher_log s)"
    using s by (simp add: pipeline_inv_def)
  have 2: "processing_done t' = False \<and> results_sent t' = results_sent t + 1"
    if "runs_complete plat w t" and "process_encryption plat w t = Inr t'" for w t'
  proof -
    from that(1) obtain v u where c: "current_cmd t = ENCRYPT"
      and v: "after_dispatch plat t = Inr v" and u: "take_irqs w v = Inr u"
      and g: "complete_guard u"
      by (auto simp: runs_complete_def before_complete_def split: sum.splits)
    from v have "results_sent v = results_sent t"
      by (auto simp: pipeline_defs results_sent_def Let_def split: if_splits sum.splits)
    with take_irqs_keeps(14) [OF u] have r: "results_sent u = results_sent t"
      by simp
    from that(2) c v u g have "complete_body plat u = Inr t'"
      by (simp add: process_encryption_stages before_complete_def)
    then have "processing_done t' = False \<and> results_sent t' = results_sent u + 1"
      by (auto simp: complete_body_def send_raw_data_def uart_write_packet_def results_sent_def
          Let_def split: if_splits)
    with r show ?thesis by simp
  qed
  have 3: "process_encryption plat w t = take_irqs w t"
    if "processing_done t = False" "rts t = True" "\<not> runs_dispatch plat t" for w
  proof (cases "current_cmd t = ENCRYPT")
    case False
    then show ?thesis by (simp add: process_encryption_def)
  next
    case True
    from t that(1) have tx: "tx_shadow_buffer_ready t"
      by (auto simp: pipeline_inv_def)
    with True that have n: "\<not> stage_guard t"
      by (auto simp: runs_dispatch_def dispatch_guard_def after_stage_def stage_body_def
          Let_def split: if_splits)
    with True that have a: "after_dispatch plat t = Inr t"
      by (auto simp: runs_dispatch_def after_dispatch_def after_stage_def)
    show ?thesis
    proof (cases "take_irqs w t")
      case (Inl e)
      with True a show ?thesis
        by (simp add: process_encryption_stages before_complete_def)
    next
      case (Inr u)
      from take_irqs_keeps(1) [OF Inr] that(1) have "\<not> complete_guard u"
        by (simp add: complete_guard_def)
      with True a Inr show ?thesis
        by (simp add: process_encryption_stages before_complete_def)
    qed
  qed
  have 4: "tx_log t' = tx_log t \<and> rx_ready t' = rx_ready t \<and>
           processing_done t' = processing_done t \<and>
           rx_shadow_buffer_ready t' = rx_shadow_buffer_ready t \<and>
           tx_shadow_buffer_ready t' = tx_shadow_buffer_ready t"
    if "processing_done t = False" "rts t = True" "\<not> runs_dispatch plat t"
      "process_encryption plat w t = Inr t'" for w t'
  proof -
    from 3 [OF that(1,2,3), of w] that(4) have "take_irqs w t = Inr t'"
      by simp
    from take_irqs_keeps [OF this] show ?thesis
      by simp
  qed
  from 3 [of "[]"] have 5: "process_encryption plat [] t = Inr t"
    if "processing_done t = False" "rts t = True" "\<not> runs_dispatch plat t"
    using that by simp
  have A: "\<forall>w t'. runs_complete plat w t \<and> process_encryption plat w t = Inr t'
            \<longrightarrow> processing_done t' = False \<and> results_sent t' = results_sent t + 1"
    using 2 by blast
  have B: "processing_done t = False \<and> rts t = True \<and> \<not> runs_dispatch plat t
            \<longrightarrow> process_encryption plat [] t = Inr t \<and>
                (\<forall>w. process_encryption plat w t = take_irqs w t) \<and>
                (\<forall>w t'. process_encryption plat w t = Inr t'
                   \<longrightarrow> tx_log t' = tx_log t \<and> rx_ready t' = rx_ready t \<and>
                       processing_done t' = processing_done t \<and>
                       rx_shadow_buffer_ready t' = rx_shadow_buffer_ready t \<and>
                       tx_shadow_buffer_ready t' = tx_shadow_buffer_ready t)"
  proof
    assume "processing_done t = False \<and> rts t = True \<and> \<not> runs_dispatch plat t"
    then have a: "processing_done t = False" "rts t = True" "\<not> runs_dispatch plat t"
      by simp_all
    from 5 [OF a] 3 [OF a] 4 [OF a]
    show "process_encryption plat [] t = Inr t \<and>
                (\<forall>w. process_encryption plat w t = take_irqs w t) \<and>
                (\<forall>w t'. process_encryption plat w t = Inr t'
                   \<longrightarrow> tx_log t' = tx_log t \<and> rx_ready t' = rx_ready t \<and>
                       processing_done t' = processing_done t \<and>
                       rx_shadow_buffer_ready t' = rx_shadow_buffer_ready t \<and>
                       tx_shadow_buffer_ready t' = tx_shadow_buffer_ready t)"
      by blast
  qed
  from 1 have "results_sent s \<le> length (cypher_log s)"
    by simp
  with 1 A B show ?thesis
    by (intro conjI)
qed

theorem result_sent_once_witness:
  "\<exists>s. exec demo_platform (raw_frame 0 0 @ [HANDLE_COMMANDS [] [], IRQ TX_IRQ, HANDLE_COMMANDS [] [],
                                              IRQ TX_IRQ]) boot = Inr s \<and>
     parse_pending demo_platform s = Inr s \<and> take_irqs [] s = Inr s \<and>
     results_sent s = 1 \<and> length (cypher_log s) = 1 \<and> in_flight s = 0 \<and>
     processing_done s = False \<and> rts s = True \<and> \<not> runs_dispatch demo_platform s \<and>
     process_encryption demo_platform [] s = Inr s"
proof -
  define s where "s = projr (exec demo_platform
    (raw_frame 0 0 @ [HANDLE_COMMANDS [] [], IRQ TX_IRQ, HANDLE_COMMANDS [] [], IRQ TX_IRQ]) boot)"
  have 1: "exec demo_platform
    (raw_frame 0 0 @ [HANDLE_COMMANDS [] [], IRQ TX_IRQ, HANDLE_COMMANDS [] [], IRQ TX_IRQ]) boot
      = Inr s"
    unfolding s_def by (simp add: run_defs pipeline_defs)
  have 2: "parse_pending demo_platform s = Inr s"
    unfolding s_def by (simp add: run_defs pipeline_defs)
  have 0: "take_irqs [] s = Inr s"
    by simp
  have 3: "processing_done s = False" "rts s = True" "\<not> runs_dispatch demo_platform s"
    "results_sent s = 1" "length (cypher_log s) = 1" "in_flight s = 0"
    unfolding s_def by (simp_all add: run_defs pipeline_defs)
  from result_sent_once [OF 1 2 0] 1 2 0 3 show ?thesis
    by simp
qed

end
